theory Spec2Isabelle
  imports Main "HOL-Library.FSet"
begin

section \<open>Data model: the stores of \<^verbatim>\<open>stores/game.js\<close> and the payloads they hold\<close>

text \<open>
  A card as the server serialises it (\<^verbatim>\<open>{id, suit, value, image_url}\<close>, see
  \<^verbatim>\<open>Card.svelte\<close>). The handlers only ever read \<^verbatim>\<open>id\<close>.
\<close>

record card =
  card_id :: string
  suit :: string
  card_value :: nat
  image_url :: string

record player_info =
  hand_count :: nat
  captured_count :: nat
  scopas :: nat

text \<open>
  The payload of a \<^verbatim>\<open>state\<close> message. \<^verbatim>\<open>players\<close> is a JSON object; it is kept as
  an association list in the order \<^verbatim>\<open>Object.entries\<close> enumerates it. A missing
  \<^verbatim>\<open>players\<close> field behaves like the empty object in every place the code reads it
  (\<^verbatim>\<open>newState.players ?? {}\<close>, \<^verbatim>\<open>prev.players?.[pid]\<close>).
\<close>

record game_state =
  phase :: string
  table :: "card list"
  players :: "(string \<times> player_info) list"
  scores :: "(string \<times> int) list"
  deck_remaining :: nat
  is_human_turn :: bool
  human_hand :: "card list"

record round_result =
  round_number :: nat
  round_scores :: "(string \<times> int) list"
  cumulative :: "(string \<times> int) list"

record scopa_by =
  player_id :: string
  is_mine :: bool

datatype ws_status = Disconnected | Connecting | Connected | Waiting

datatype deal_type = Full | Hands

text \<open>The \<^verbatim>\<open>readyState\<close> of a browser WebSocket.\<close>

datatype ready_state = CONNECTING | OPEN | CLOSING | CLOSED

record socket =
  url_session :: string
  url_player :: string
  readyState :: ready_state

text \<open>Outbound frames (\<^verbatim>\<open>sendPlay\<close>, \<^verbatim>\<open>sendGetCaptures\<close>).\<close>

datatype out_message =
    Play string "string list"
  | GetCaptures string

text \<open>
  Inbound frames after \<^verbatim>\<open>JSON.parse\<close>, by their \<^verbatim>\<open>type\<close> field. Optional fields
  are options; \<^verbatim>\<open>UnknownMsg\<close> is any other \<^verbatim>\<open>type\<close>.
\<close>

datatype message =
    WaitingMsg
  | GameStartedMsg "string option" "nat option"
  | CardsDealtMsg "nat option"
  | StateMsg game_state
  | CapturesMsg "string list list"
  | RoundOverMsg round_result
  | ErrorMsg string
  | OpponentDisconnectedMsg
  | PongMsg
  | UnknownMsg string

text \<open>A raw frame either parses to a message or makes \<^verbatim>\<open>JSON.parse\<close> throw.\<close>

datatype frame = Malformed | Parsed message

datatype timer_action = ClearScopa | ClearError

datatype log_entry =
    LogConnected
  | LogClosed
  | LogSocketError
  | LogParseFailure
  | LogUnknownType string
  | LogCannotSend out_message

text \<open>
  The whole client: the module variables of \<^verbatim>\<open>ws.js\<close> (\<^verbatim>\<open>_ws\<close>, \<^verbatim>\<open>_myPlayerId\<close>),
  the browser objects they refer to (the sockets ever created, \<^verbatim>\<open>_ws\<close> being an index
  into them; the timers scheduled with \<^verbatim>\<open>setTimeout\<close>; the console; the frames handed
  to \<^verbatim>\<open>WebSocket.send\<close>), the writable stores of \<^verbatim>\<open>stores/game.js\<close>, and the local
  variable \<^verbatim>\<open>pendingTableIds\<close> of \<^verbatim>\<open>GameBoard.svelte\<close>.

  \<^verbatim>\<open>scopaEvents\<close> records every non-null value written to \<^verbatim>\<open>lastScopaBy\<close>, in order:
  each such write notifies the store's subscribers once, and the store itself only keeps
  the last one. \<^verbatim>\<open>selectedCard_dirty\<close> is Svelte's invalidation bit of \<^verbatim>\<open>$selectedCard\<close>
  in the GameBoard component.
\<close>

record client =
  ws :: "nat option"
  myPlayerId :: "string option"
  sockets :: "socket list"
  timers :: "(nat \<times> timer_action) list"
  console :: "log_entry list"
  sent :: "out_message list"
  sessionId :: "string option"
  playerId :: "string option"
  opponentId :: "string option"
  joinCode :: "string option"
  wsStatus :: ws_status
  gameState :: "game_state option"
  selectedCard :: "card option"
  captureOptions :: "string list list"
  roundResult :: "round_result option"
  errorMessage :: "string option"
  isWaiting :: bool
  isDealing :: bool
  roundNumber :: nat
  dealType :: deal_type
  capturesLoaded :: bool
  lastScopaBy :: "scopa_by option"
  scopaEvents :: "scopa_by list"
  pendingTableIds :: "string fset"
  selectedCard_dirty :: bool

text \<open>
  The stores as \<^verbatim>\<open>stores/game.js\<close> initialises them, on the game page of a session
  whose join code (if this client created the session) is \<open>jc\<close>.
\<close>

definition initial :: "string option \<Rightarrow> client" where
  "initial jc =
     \<lparr> ws = None, myPlayerId = None, sockets = [], timers = [], console = [], sent = [],
       sessionId = None, playerId = None, opponentId = None, joinCode = jc,
       wsStatus = Disconnected, gameState = None, selectedCard = None,
       captureOptions = [], roundResult = None, errorMessage = None,
       isWaiting = False, isDealing = False, roundNumber = 1, dealType = Full,
       capturesLoaded = False, lastScopaBy = None, scopaEvents = [],
       pendingTableIds = {||}, selectedCard_dirty = False \<rparr>"

subsection \<open>Derived stores\<close>

definition isMyTurn :: "client \<Rightarrow> bool" where
  "isMyTurn s = (case gameState s of None \<Rightarrow> False | Some gs \<Rightarrow> is_human_turn gs)"

definition myHand :: "client \<Rightarrow> card list" where
  "myHand s = (case gameState s of None \<Rightarrow> [] | Some gs \<Rightarrow> human_hand gs)"

definition tableCards :: "client \<Rightarrow> card list" where
  "tableCards s = (case gameState s of None \<Rightarrow> [] | Some gs \<Rightarrow> table gs)"

text \<open>
  \<^verbatim>\<open>$: capturableIds = new Set($captureOptions.flat())\<close>. Svelte recomputes it before
  the next event is handled whenever \<^verbatim>\<open>$captureOptions\<close> changed, and the handlers read
  it only before they write anything, so it is a function of the store.
\<close>

definition capturableIds :: "client \<Rightarrow> string fset" where
  "capturableIds s = fset_of_list (concat (captureOptions s))"

text \<open>
  \<^verbatim>\<open>selectedCard.set(v)\<close>. A Svelte store notifies its subscribers unless the old and
  the new value are both the same primitive; here: unless both are \<^verbatim>\<open>null\<close>. A
  notification marks \<^verbatim>\<open>$selectedCard\<close> dirty in the component.
\<close>

definition set_selectedCard :: "card option \<Rightarrow> client \<Rightarrow> client" where
  "set_selectedCard v s =
     (if v = None \<and> selectedCard s = None then s
      else s\<lparr>selectedCard := v, selectedCard_dirty := True\<rparr>)"

definition setTimeout :: "timer_action \<Rightarrow> nat \<Rightarrow> client \<Rightarrow> client" where
  "setTimeout a ms s = s\<lparr>timers := timers s @ [(ms, a)]\<rparr>"

section \<open>The WebSocket client (\<^verbatim>\<open>ws.js\<close>)\<close>

text \<open>\<^verbatim>\<open>WebSocket.close()\<close>: a socket that is not yet closing or closed starts closing.\<close>

definition close_socket :: "socket \<Rightarrow> socket" where
  "close_socket k =
     (if readyState k = CLOSING \<or> readyState k = CLOSED then k
      else k\<lparr>readyState := CLOSING\<rparr>)"

text \<open>The common prefix of \<^verbatim>\<open>connect\<close> and the body of \<^verbatim>\<open>disconnect\<close>.\<close>

definition disconnect :: "client \<Rightarrow> client" where
  "disconnect s =
     (case ws s of
        None \<Rightarrow> s
      | Some i \<Rightarrow> s\<lparr>sockets := (sockets s)[i := close_socket (sockets s ! i)], ws := None\<rparr>)"

definition connect :: "string \<Rightarrow> string \<Rightarrow> client \<Rightarrow> client" where
  "connect sid pid s =
     (let s1 = disconnect (s\<lparr>myPlayerId := Some pid\<rparr>);
          s2 = s1\<lparr>wsStatus := Connecting\<rparr>
      in s2\<lparr>sockets := sockets s2 @ [\<lparr>url_session = sid, url_player = pid, readyState = CONNECTING\<rparr>],
             ws := Some (length (sockets s2))\<rparr>)"

definition ws_open :: "client \<Rightarrow> bool" where
  "ws_open s =
     (case ws s of
        None \<Rightarrow> False
      | Some i \<Rightarrow> i < length (sockets s) \<and> readyState (sockets s ! i) = OPEN)"

text \<open>\<^verbatim>\<open>_send\<close>.\<close>

definition send :: "out_message \<Rightarrow> client \<Rightarrow> client" where
  "send msg s =
     (if ws_open s then s\<lparr>sent := sent s @ [msg]\<rparr>
      else s\<lparr>console := console s @ [LogCannotSend msg]\<rparr>)"

definition sendPlay :: "string \<Rightarrow> string list \<Rightarrow> client \<Rightarrow> client" where
  "sendPlay cardId captureIds s = send (Play cardId captureIds) s"

definition sendGetCaptures :: "string \<Rightarrow> client \<Rightarrow> client" where
  "sendGetCaptures cardId s = send (GetCaptures cardId) s"

text \<open>
  The scopa detection loop of the \<^verbatim>\<open>state\<close> case, over
  \<^verbatim>\<open>Object.entries(newState.players)\<close>; \<open>prev\<close> is the previous game state.
\<close>

definition oldScopas :: "game_state \<Rightarrow> string \<Rightarrow> nat" where
  "oldScopas prev pid = (case map_of (players prev) pid of None \<Rightarrow> 0 | Some p \<Rightarrow> scopas p)"

fun detect_scopas :: "game_state \<Rightarrow> (string \<times> player_info) list \<Rightarrow> client \<Rightarrow> client" where
  "detect_scopas prev [] s = s"
| "detect_scopas prev ((pid, pinfo) # rest) s =
     detect_scopas prev rest
       (if scopas pinfo > oldScopas prev pid then
          (let e = \<lparr>player_id = pid, is_mine = (Some pid = myPlayerId s)\<rparr>
           in setTimeout ClearScopa 2500
                (s\<lparr>lastScopaBy := Some e, scopaEvents := scopaEvents s @ [e]\<rparr>))
        else s)"

text \<open>
  \<^verbatim>\<open>_dispatch\<close>. \<^verbatim>\<open>if (msg.opponent_id)\<close> and \<^verbatim>\<open>if (msg.round)\<close> test truthiness:
  an empty string and the number 0 count as absent.
\<close>

fun dispatch :: "message \<Rightarrow> client \<Rightarrow> client" where
  "dispatch WaitingMsg s = s\<lparr>isWaiting := True, wsStatus := Waiting\<rparr>"
| "dispatch (GameStartedMsg opp rnd) s =
     (let s1 = s\<lparr>isWaiting := False, wsStatus := Connected\<rparr>;
          s2 = (case opp of Some p \<Rightarrow> (if p \<noteq> [] then s1\<lparr>opponentId := Some p\<rparr> else s1)
                          | None \<Rightarrow> s1);
          s3 = (case rnd of Some r \<Rightarrow> (if r \<noteq> 0 then s2\<lparr>roundNumber := r\<rparr> else s2)
                          | None \<Rightarrow> s2);
          s4 = set_selectedCard None s3
      in s4\<lparr>captureOptions := [], capturesLoaded := False, roundResult := None,
             gameState := None, dealType := Full, isDealing := True\<rparr>)"
| "dispatch (CardsDealtMsg rnd) s =
     (let s1 = (case rnd of Some r \<Rightarrow> (if r \<noteq> 0 then s\<lparr>roundNumber := r\<rparr> else s)
                          | None \<Rightarrow> s);
          s2 = set_selectedCard None s1
      in s2\<lparr>captureOptions := [], capturesLoaded := False, dealType := Hands,
             isDealing := True\<rparr>)"
| "dispatch (StateMsg newState) s =
     (let s1 = (case gameState s of
                  None \<Rightarrow> s
                | Some prev \<Rightarrow> detect_scopas prev (players newState) s);
          s2 = s1\<lparr>gameState := Some newState, errorMessage := None, roundResult := None\<rparr>
      in if \<not> is_human_turn newState then
           (set_selectedCard None s2)\<lparr>captureOptions := [], capturesLoaded := False\<rparr>
         else s2)"
| "dispatch (CapturesMsg opts) s = s\<lparr>captureOptions := opts, capturesLoaded := True\<rparr>"
| "dispatch (RoundOverMsg r) s =
     set_selectedCard None
       (s\<lparr>roundResult := Some r, captureOptions := [], capturesLoaded := False\<rparr>)"
| "dispatch (ErrorMsg m) s = setTimeout ClearError 4000 (s\<lparr>errorMessage := Some m\<rparr>)"
| "dispatch OpponentDisconnectedMsg s =
     s\<lparr>wsStatus := Disconnected, errorMessage := Some ''Opponent disconnected.''\<rparr>"
| "dispatch PongMsg s = s"
| "dispatch (UnknownMsg t) s = s\<lparr>console := console s @ [LogUnknownType t]\<rparr>"

text \<open>The four handlers \<^verbatim>\<open>connect\<close> installs on the socket it creates.\<close>

definition onopen :: "client \<Rightarrow> client" where
  "onopen s = s\<lparr>wsStatus := Connected, console := console s @ [LogConnected]\<rparr>"

definition onmessage :: "frame \<Rightarrow> client \<Rightarrow> client" where
  "onmessage f s =
     (case f of
        Parsed m \<Rightarrow> dispatch m s
      | Malformed \<Rightarrow> s\<lparr>console := console s @ [LogParseFailure]\<rparr>)"

definition onerror :: "client \<Rightarrow> client" where
  "onerror s = s\<lparr>console := console s @ [LogSocketError], wsStatus := Disconnected\<rparr>"

definition onclose :: "client \<Rightarrow> client" where
  "onclose s = s\<lparr>wsStatus := Disconnected, console := console s @ [LogClosed]\<rparr>"

section \<open>The capture selector (\<^verbatim>\<open>GameBoard.svelte\<close>)\<close>

definition executePlay :: "string \<Rightarrow> string list \<Rightarrow> client \<Rightarrow> client" where
  "executePlay cardId captIds s =
     (set_selectedCard None (sendPlay cardId captIds s))
       \<lparr>captureOptions := [], capturesLoaded := False, pendingTableIds := {||}\<rparr>"

definition cancelSelection :: "client \<Rightarrow> client" where
  "cancelSelection s =
     (set_selectedCard None s)
       \<lparr>captureOptions := [], capturesLoaded := False, pendingTableIds := {||}\<rparr>"

definition handleHandCard :: "card \<Rightarrow> client \<Rightarrow> client" where
  "handleHandCard c s =
     (if \<not> isMyTurn s then s
      else if (case selectedCard s of None \<Rightarrow> False | Some sel \<Rightarrow> card_id sel = card_id c) then
        (if length (captureOptions s) = 0 then executePlay (card_id c) [] s
         else cancelSelection s)
      else
        sendGetCaptures (card_id c)
          ((set_selectedCard (Some c) s)
             \<lparr>captureOptions := [], capturesLoaded := False, pendingTableIds := {||}\<rparr>))"

text \<open>
  The toggle of \<^verbatim>\<open>handleTableCard\<close> on a copy of the pending set, and the search
  \<^verbatim>\<open>$captureOptions.find(opt => opt.length === pendingArr.length &&
  pendingArr.every(id => opt.includes(id)))\<close>.
\<close>

definition toggle :: "string \<Rightarrow> string fset \<Rightarrow> string fset" where
  "toggle i p = (if i |\<in>| p then p |-| {|i|} else finsert i p)"

definition exactMatch :: "string list list \<Rightarrow> string fset \<Rightarrow> string list option" where
  "exactMatch opts p =
     find (\<lambda>opt. length opt = fcard p \<and> fBall p (\<lambda>i. i \<in> set opt)) opts"

definition handleTableCard :: "card \<Rightarrow> client \<Rightarrow> client" where
  "handleTableCard c s =
     (case selectedCard s of
        None \<Rightarrow> s
      | Some sel \<Rightarrow>
          if \<not> isMyTurn s then s
          else if card_id c |\<notin>| capturableIds s \<and> card_id c |\<notin>| pendingTableIds s then s
          else
            (let s1 = s\<lparr>pendingTableIds := toggle (card_id c) (pendingTableIds s)\<rparr>
             in case exactMatch (captureOptions s1) (pendingTableIds s1) of
                  None \<Rightarrow> s1
                | Some opt \<Rightarrow> executePlay (card_id sel) opt s1))"

section \<open>The game page (\<^verbatim>\<open>routes/game/[session_id]/+page.svelte\<close>) and the event loop\<close>

text \<open>
  The page shows, in this order of precedence, the connecting spinner, the lobby, the
  disconnected notice, or (its last branch) the active game.
\<close>

definition page_active :: "client \<Rightarrow> bool" where
  "page_active s \<longleftrightarrow>
     \<not> (wsStatus s = Connecting) \<and>
     \<not> (wsStatus s = Waiting \<or> isWaiting s) \<and>
     \<not> (wsStatus s = Disconnected \<and> gameState s = None)"

text \<open>\<^verbatim>\<open>{#if !$isDealing || $gameState} <GameBoard /> {/if}\<close> inside the last branch.\<close>

definition board_mounted :: "client \<Rightarrow> bool" where
  "board_mounted s \<longleftrightarrow> page_active s \<and> (\<not> isDealing s \<or> gameState s \<noteq> None)"

text \<open>GameBoard renders its cards only under \<^verbatim>\<open>{#if !$gameState} ... {:else}\<close>.\<close>

definition board_shown :: "client \<Rightarrow> bool" where
  "board_shown s \<longleftrightarrow> board_mounted s \<and> gameState s \<noteq> None"

text \<open>\<^verbatim>\<open>$: if ($selectedCard === null) pendingTableIds = new Set();\<close>\<close>

definition reactive_clear :: "client \<Rightarrow> client" where
  "reactive_clear s = (if selectedCard s = None then s\<lparr>pendingTableIds := {||}\<rparr> else s)"

text \<open>
  What Svelte does after an event handler has returned and before the next event: the
  reactive statement runs if \<^verbatim>\<open>$selectedCard\<close> was invalidated, and the page is
  rendered again; a GameBoard that is not rendered is destroyed, and the next one starts
  with \<^verbatim>\<open>pendingTableIds = new Set()\<close>.
\<close>

definition flush :: "client \<Rightarrow> client" where
  "flush s =
     (let s1 = (if selectedCard_dirty s then reactive_clear s else s)\<lparr>selectedCard_dirty := False\<rparr>
      in if board_mounted s1 then s1 else s1\<lparr>pendingTableIds := {||}\<rparr>)"

definition fire :: "timer_action \<Rightarrow> client \<Rightarrow> client" where
  "fire a s = (case a of ClearScopa \<Rightarrow> s\<lparr>lastScopaBy := None\<rparr>
                       | ClearError \<Rightarrow> s\<lparr>errorMessage := None\<rparr>)"

text \<open>
  Everything that can happen to the client: calls of the public API of \<^verbatim>\<open>ws.js\<close>,
  events of a socket (each socket keeps the handlers \<^verbatim>\<open>connect\<close> gave it, also after
  \<^verbatim>\<open>_ws\<close> has moved on), a timer running out, the deal animation finishing, and taps.
  An event that the browser cannot deliver in the current state (a message on a socket
  that is not open, a tap on a disabled or absent card) leaves the state as it is.
  The deal animation reports \<^verbatim>\<open>done\<close> from a timer it never cancels, so the page's
  handler \<^verbatim>\<open>isDealing.set(false)\<close> may run whatever the page shows by then.
\<close>

datatype event =
    ConnectCall string string
  | DisconnectCall
  | SocketOpens nat
  | SocketReceives nat frame
  | SocketErrors nat
  | SocketCloses nat
  | TimerFires nat
  | DealAnimationDone
  | TapHandCard card
  | TapTableCard card
  | TapCancel

definition set_readyState :: "nat \<Rightarrow> ready_state \<Rightarrow> client \<Rightarrow> client" where
  "set_readyState i r s = s\<lparr>sockets := (sockets s)[i := (sockets s ! i)\<lparr>readyState := r\<rparr>]\<rparr>"

definition socket_is :: "nat \<Rightarrow> ready_state \<Rightarrow> client \<Rightarrow> bool" where
  "socket_is i r s \<longleftrightarrow> i < length (sockets s) \<and> readyState (sockets s ! i) = r"

fun handle :: "event \<Rightarrow> client \<Rightarrow> client" where
  "handle (ConnectCall sid pid) s = connect sid pid s"
| "handle DisconnectCall s = disconnect s"
| "handle (SocketOpens i) s =
     (if socket_is i CONNECTING s then onopen (set_readyState i OPEN s) else s)"
| "handle (SocketReceives i f) s = (if socket_is i OPEN s then onmessage f s else s)"
| "handle (SocketErrors i) s =
     (if i < length (sockets s) \<and> \<not> socket_is i CLOSED s then onerror s else s)"
| "handle (SocketCloses i) s =
     (if i < length (sockets s) \<and> \<not> socket_is i CLOSED s
      then onclose (set_readyState i CLOSED s) else s)"
| "handle (TimerFires n) s =
     (if n < length (timers s)
      then fire (snd (timers s ! n)) (s\<lparr>timers := take n (timers s) @ drop (Suc n) (timers s)\<rparr>)
      else s)"
| "handle DealAnimationDone s = s\<lparr>isDealing := False\<rparr>"
| "handle (TapHandCard c) s =
     (if board_shown s \<and> c \<in> set (myHand s) \<and> isMyTurn s then handleHandCard c s else s)"
| "handle (TapTableCard c) s =
     (if board_shown s \<and> c \<in> set (tableCards s) \<and> selectedCard s \<noteq> None \<and> isMyTurn s \<and>
         (card_id c |\<in>| capturableIds s \<or> card_id c |\<in>| pendingTableIds s)
      then handleTableCard c s else s)"
| "handle TapCancel s =
     (if board_shown s \<and> selectedCard s \<noteq> None \<and> isMyTurn s then cancelSelection s else s)"

definition step :: "event \<Rightarrow> client \<Rightarrow> client" where
  "step e s = flush (handle e s)"

fun run :: "event list \<Rightarrow> client \<Rightarrow> client" where
  "run [] s = s"
| "run (e # es) s = run es (step e s)"

section \<open>Notions used to state the properties\<close>

text \<open>
  The players whose scopa count in the entries \<open>es\<close> of a new state exceeds the one in
  the previous state \<open>prev\<close>, in the order of \<open>es\<close>, and the value the loop writes to
  \<^verbatim>\<open>lastScopaBy\<close> for such a player.
\<close>

definition increased :: "game_state \<Rightarrow> (string \<times> player_info) list \<Rightarrow> string list" where
  "increased prev es = map fst (filter (\<lambda>(pid, pinfo). scopas pinfo > oldScopas prev pid) es)"

definition scopa_of :: "string option \<Rightarrow> string \<Rightarrow> scopa_by" where
  "scopa_of me pid = \<lparr>player_id = pid, is_mine = (Some pid = me)\<rparr>"

text \<open>A connection is live while it is being opened or open.\<close>

definition live :: "socket \<Rightarrow> bool" where
  "live k \<longleftrightarrow> readyState k = CONNECTING \<or> readyState k = OPEN"

text \<open>Only the socket \<^verbatim>\<open>_ws\<close> refers to can be live.\<close>

definition sockets_ok :: "client \<Rightarrow> bool" where
  "sockets_ok s \<longleftrightarrow> (\<forall>i < length (sockets s). live (sockets s ! i) \<longrightarrow> ws s = Some i)"

text \<open>
  Between two events: a card is selected only on the local player's turn, nothing is
  pending without a selected card, and the component is up to date. \<open>selection_pre\<close> is
  what holds when a handler has returned and Svelte has not yet updated the component.
\<close>

definition selection_ok :: "client \<Rightarrow> bool" where
  "selection_ok s \<longleftrightarrow>
     (selectedCard s \<noteq> None \<longrightarrow> isMyTurn s) \<and>
     (selectedCard s = None \<longrightarrow> pendingTableIds s = {||}) \<and>
     \<not> selectedCard_dirty s"

definition selection_pre :: "client \<Rightarrow> bool" where
  "selection_pre s \<longleftrightarrow>
     (selectedCard s \<noteq> None \<longrightarrow> isMyTurn s) \<and>
     (selectedCard s = None \<and> \<not> selectedCard_dirty s \<longrightarrow> pendingTableIds s = {||})"

text \<open>The invariant of the data model: \<open>pendingIds \<subseteq> \<Union> captureOptions\<close>.\<close>

definition pending_ok :: "client \<Rightarrow> bool" where
  "pending_ok s \<longleftrightarrow> pendingTableIds s |\<subseteq>| capturableIds s"

subsection \<open>A concrete game, for the examples\<close>

definition hand_seven :: card where
  "hand_seven = \<lparr>card_id = ''h7'', suit = ''oro'', card_value = 7, image_url = ''/7o.png''\<rparr>"

definition hand_five :: card where
  "hand_five = \<lparr>card_id = ''h5'', suit = ''oro'', card_value = 5, image_url = ''/5o.png''\<rparr>"

definition table_c1 :: card where
  "table_c1 = \<lparr>card_id = ''c1'', suit = ''coppe'', card_value = 3, image_url = ''/3c.png''\<rparr>"

definition table_c2 :: card where
  "table_c2 = \<lparr>card_id = ''c2'', suit = ''coppe'', card_value = 4, image_url = ''/4c.png''\<rparr>"

definition table_c3 :: card where
  "table_c3 = \<lparr>card_id = ''c3'', suit = ''spade'', card_value = 5, image_url = ''/5s.png''\<rparr>"

definition my_turn_state :: game_state where
  "my_turn_state =
     \<lparr>phase = ''playing'', table = [table_c1, table_c2, table_c3],
      players = [(''A'', \<lparr>hand_count = 2, captured_count = 0, scopas = 0\<rparr>),
                 (''B'', \<lparr>hand_count = 2, captured_count = 2, scopas = 1\<rparr>)],
      scores = [(''A'', 0), (''B'', 0)], deck_remaining = 30, is_human_turn = True,
      human_hand = [hand_seven, hand_five]\<rparr>"

text \<open>
  Player A connects, the game starts, the first state arrives with A to move, and the
  deal animation ends.
\<close>

definition game_on :: "event list" where
  "game_on =
     [ConnectCall ''s1'' ''A'', SocketOpens 0,
      SocketReceives 0 (Parsed (GameStartedMsg (Some ''B'') (Some 1))),
      SocketReceives 0 (Parsed (StateMsg my_turn_state)), DealAnimationDone]"

text \<open>The same state with the opponent to move.\<close>

definition opponent_turn_state :: game_state where
  "opponent_turn_state = my_turn_state\<lparr>is_human_turn := False\<rparr>"

text \<open>
  The state after A has swept the table: A's scopa count has gone from 0 to 1, B's is
  still 1, and the opponent is to move.
\<close>

definition after_sweep_state :: game_state where
  "after_sweep_state =
     \<lparr>phase = ''playing'', table = [],
      players = [(''A'', \<lparr>hand_count = 1, captured_count = 3, scopas = 1\<rparr>),
                 (''B'', \<lparr>hand_count = 2, captured_count = 2, scopas = 1\<rparr>)],
      scores = [(''A'', 0), (''B'', 0)], deck_remaining = 30, is_human_turn = False,
      human_hand = [hand_five]\<rparr>"

text \<open>
  A selects the seven, the server offers the combination c1 + c2, and A taps c1: half
  of a combination is pending.
\<close>

definition partial_pick :: "event list" where
  "partial_pick =
     game_on @
     [TapHandCard hand_seven, SocketReceives 0 (Parsed (CapturesMsg [[''c1'', ''c2'']])),
      TapTableCard table_c1]"

text \<open>A selects the seven and, before any answer arrives, the five.\<close>

definition two_requests :: "event list" where
  "two_requests = game_on @ [TapHandCard hand_seven, TapHandCard hand_five]"

text \<open>A selects the seven and the server answers that it captures nothing.\<close>

definition seven_selected :: "event list" where
  "seven_selected =
     game_on @ [TapHandCard hand_seven, SocketReceives 0 (Parsed (CapturesMsg []))]"

text \<open>
  Two requests are out, for the seven and then the five. The answer for the seven
  arrives, A taps c1, and then the answer for the five arrives.
\<close>

definition stale_answer :: "event list" where
  "stale_answer =
     two_requests @
     [SocketReceives 0 (Parsed (CapturesMsg [[''c1'', ''c2'']])), TapTableCard table_c1,
      SocketReceives 0 (Parsed (CapturesMsg [[''c3'']]))]"

text \<open>The creator of a session waits in the lobby for an opponent.\<close>

definition lobby :: "event list" where
  "lobby = [ConnectCall ''s1'' ''A'', SocketOpens 0, SocketReceives 0 (Parsed WaitingMsg)]"

text \<open>The opponent leaves during A's turn, and A taps a hand card.\<close>

definition opponent_left :: "event list" where
  "opponent_left =
     game_on @ [SocketReceives 0 (Parsed OpponentDisconnectedMsg), TapHandCard hand_seven]"

text \<open>\<^verbatim>\<open>disconnect\<close> is called on an open connection; its close event has not fired yet.\<close>

definition hung_up :: "event list" where
  "hung_up = [ConnectCall ''s1'' ''A'', SocketOpens 0, DisconnectCall]"

text \<open>While the status is connecting, the current socket is not open.\<close>

definition connecting_ok :: "client \<Rightarrow> bool" where
  "connecting_ok s \<longleftrightarrow> (wsStatus s = Connecting \<longrightarrow> \<not> ws_open s)"

section \<open>Auxiliary facts\<close>

lemma detect_scopas_eq:
  "detect_scopas prev es s =
     s\<lparr>timers := timers s @ replicate (length (increased prev es)) (2500, ClearScopa),
       lastScopaBy := (if increased prev es = [] then lastScopaBy s
                       else Some (scopa_of (myPlayerId s) (last (increased prev es)))),
       scopaEvents := scopaEvents s @ map (scopa_of (myPlayerId s)) (increased prev es)\<rparr>"
proof (induction es arbitrary: s)
  case Nil
  then show ?case by (simp add: increased_def)
next
  case (Cons e es)
  obtain pid pinfo where e: "e = (pid, pinfo)" by (cases e)
  show ?case
    unfolding e
    by (simp add: Cons.IH increased_def setTimeout_def scopa_of_def Let_def
        replicate_app_Cons_same)
qed

lemmas handler_defs =
  connect_def disconnect_def onopen_def onmessage_def onerror_def onclose_def
  set_readyState_def fire_def send_def sendPlay_def sendGetCaptures_def
  executePlay_def cancelSelection_def handleHandCard_def handleTableCard_def
  set_selectedCard_def setTimeout_def detect_scopas_eq Let_def

lemma flush_selection: "selection_pre s \<Longrightarrow> selection_ok (flush s)"
  by (auto simp: selection_pre_def selection_ok_def flush_def reactive_clear_def isMyTurn_def Let_def)

lemma dispatch_selection: "selection_ok s \<Longrightarrow> selection_pre (dispatch m s)"
  by (cases m)
     (auto simp: selection_ok_def selection_pre_def isMyTurn_def handler_defs
           split: option.splits)

lemma handle_selection: "selection_ok s \<Longrightarrow> selection_pre (handle e s)"
proof (cases e)
  case (SocketReceives i f)
  assume "selection_ok s"
  then show ?thesis using dispatch_selection[of s] 
    by (cases f) (auto simp: SocketReceives onmessage_def selection_ok_def selection_pre_def isMyTurn_def)
qed (auto simp: selection_ok_def selection_pre_def isMyTurn_def handler_defs
           split: option.splits timer_action.splits)

lemma step_selection: "selection_ok s \<Longrightarrow> selection_ok (step e s)"
  by (simp add: step_def flush_selection handle_selection)

lemma run_selection: "selection_ok s \<Longrightarrow> selection_ok (run es s)"
  by (induction es arbitrary: s) (simp_all add: step_selection)

lemma initial_selection: "selection_ok (initial jc)"
  by (simp add: selection_ok_def initial_def)


lemma dispatch_sockets [simp]: "sockets (dispatch m s) = sockets s" "ws (dispatch m s) = ws s"
  by (cases m; simp add: handler_defs split: option.splits)+

lemma handler_sockets [simp]:
  "sockets (handleHandCard c s) = sockets s" "ws (handleHandCard c s) = ws s"
  "sockets (handleTableCard c s) = sockets s" "ws (handleTableCard c s) = ws s"
  "sockets (cancelSelection s) = sockets s" "ws (cancelSelection s) = ws s"
  "sockets (flush s) = sockets s" "ws (flush s) = ws s"
  by (simp_all add: handler_defs flush_def reactive_clear_def split: option.splits)

lemma disconnect_sockets:
  assumes "sockets_ok s"
  shows "\<forall>i < length (sockets s). \<not> live (sockets (disconnect s) ! i)"
    and "length (sockets (disconnect s)) = length (sockets s)"
    and "ws (disconnect s) = None"
proof -
  show "\<forall>i < length (sockets s). \<not> live (sockets (disconnect s) ! i)"
  proof (intro allI impI)
    fix i assume i: "i < length (sockets s)"
    show "\<not> live (sockets (disconnect s) ! i)"
    proof (cases "ws s")
      case None
      with assms i show ?thesis by (auto simp: sockets_ok_def disconnect_def)
    next
      case (Some k)
      show ?thesis
      proof (cases "k = i")
        case True
        with Some i show ?thesis
          by (auto simp: disconnect_def close_socket_def live_def)
      next
        case False
        with Some assms i show ?thesis
          by (auto simp: disconnect_def sockets_ok_def)
      qed
    qed
  qed
qed (simp_all add: disconnect_def split: option.splits)

lemma disconnect_fields [simp]:
  "wsStatus (disconnect s) = wsStatus s" "myPlayerId (disconnect s) = myPlayerId s"
  by (simp_all add: disconnect_def split: option.splits)

lemma connect_sockets:
  assumes "sockets_ok s"
  shows "sockets_ok (connect sid pid s)"
    and "\<forall>i < length (sockets s). \<not> live (sockets (connect sid pid s) ! i)"
    and "length (sockets (connect sid pid s)) = Suc (length (sockets s))"
    and "ws (connect sid pid s) = Some (length (sockets s))"
    and "readyState (sockets (connect sid pid s) ! length (sockets s)) = CONNECTING"
    and "wsStatus (connect sid pid s) = Connecting"
proof -
  let ?s0 = "s\<lparr>myPlayerId := Some pid\<rparr>"
  have ok0: "sockets_ok ?s0" using assms by (simp add: sockets_ok_def)
  note d = disconnect_sockets[OF ok0]
  have len: "length (sockets (disconnect ?s0)) = length (sockets s)" using d(2) by simp
  show old: "\<forall>i < length (sockets s). \<not> live (sockets (connect sid pid s) ! i)"
    using d(1) len by (simp add: connect_def Let_def nth_append)
  show l: "length (sockets (connect sid pid s)) = Suc (length (sockets s))"
    using len by (simp add: connect_def Let_def)
  show w: "ws (connect sid pid s) = Some (length (sockets s))"
    using len by (simp add: connect_def Let_def)
  show "readyState (sockets (connect sid pid s) ! length (sockets s)) = CONNECTING"
    using len by (simp add: connect_def Let_def nth_append)
  show "wsStatus (connect sid pid s) = Connecting"
    by (simp add: connect_def Let_def)
  show "sockets_ok (connect sid pid s)"
    unfolding sockets_ok_def using old l w by (auto simp: less_Suc_eq)
qed

lemma set_readyState_nth:
  "j < length (sockets s) \<Longrightarrow>
   readyState (sockets (set_readyState i r s) ! j) =
     (if i = j then r else readyState (sockets s ! j))"
  by (cases "i = j") (simp_all add: set_readyState_def)

lemma set_readyState_fields [simp]:
  "length (sockets (set_readyState i r s)) = length (sockets s)"
  "ws (set_readyState i r s) = ws s"
  by (simp_all add: set_readyState_def)

lemma handle_sockets: "sockets_ok s \<Longrightarrow> sockets_ok (handle e s)"
proof (cases e)
  case (ConnectCall sid pid)
  assume "sockets_ok s"
  then show ?thesis by (simp add: ConnectCall connect_sockets)
next
  case DisconnectCall
  assume "sockets_ok s"
  from disconnect_sockets[OF this] show ?thesis
    by (simp add: DisconnectCall sockets_ok_def)
next
  case (SocketOpens i)
  assume "sockets_ok s"
  then show ?thesis
    by (auto simp: SocketOpens sockets_ok_def socket_is_def live_def onopen_def
        set_readyState_nth split: if_splits)
next
  case (SocketCloses i)
  assume "sockets_ok s"
  then show ?thesis
    by (auto simp: SocketCloses sockets_ok_def socket_is_def live_def onclose_def
        set_readyState_nth split: if_splits)
next
  case (SocketReceives i f)
  assume "sockets_ok s"
  then show ?thesis
    by (cases f) (auto simp: SocketReceives onmessage_def sockets_ok_def)
qed (auto simp: sockets_ok_def onerror_def fire_def split: timer_action.splits)

lemma step_sockets: "sockets_ok s \<Longrightarrow> sockets_ok (step e s)"
  using handle_sockets[of s e] by (simp add: step_def sockets_ok_def)

lemma run_sockets: "sockets_ok s \<Longrightarrow> sockets_ok (run es s)"
  by (induction es arbitrary: s) (simp_all add: step_sockets)

lemma initial_sockets: "sockets_ok (initial jc)"
  by (simp add: sockets_ok_def initial_def)


lemma dispatch_state_scopaEvents:
  "scopaEvents (dispatch (StateMsg ns) s) =
     scopaEvents s @ (case gameState s of None \<Rightarrow> []
                      | Some prev \<Rightarrow> map (scopa_of (myPlayerId s)) (increased prev (players ns)))"
  by (simp add: handler_defs split: option.splits)

lemma dispatch_state_timers:
  "timers (dispatch (StateMsg ns) s) =
     timers s @ (case gameState s of None \<Rightarrow> []
                 | Some prev \<Rightarrow> replicate (length (increased prev (players ns))) (2500, ClearScopa))"
  by (simp add: handler_defs split: option.splits)

lemma dispatch_state_lastScopaBy:
  "gameState s = None \<Longrightarrow> lastScopaBy (dispatch (StateMsg ns) s) = lastScopaBy s"
  by (simp add: handler_defs)

lemma filter_eq_singleton:
  "distinct xs \<Longrightarrow> x \<in> set xs \<Longrightarrow> filter (\<lambda>y. y = x) xs = [x]"
proof (induction xs)
  case Nil
  then show ?case by simp
next
  case (Cons a xs)
  show ?case
  proof (cases "a = x")
    case True
    with Cons.prems have "x \<notin> set xs" by simp
    then have "filter (\<lambda>y. y = x) xs = []" by (auto simp: filter_empty_conv)
    with True show ?thesis by simp
  next
    case False
    with Cons show ?thesis by simp
  qed
qed

lemma increased_once:
  assumes "distinct (map fst es)" "(pid, pinfo) \<in> set es" "oldScopas prev pid < scopas pinfo"
  shows "filter (\<lambda>e. player_id e = pid) (map (scopa_of me) (increased prev es)) = [scopa_of me pid]"
proof -
  have d: "distinct (increased prev es)"
    unfolding increased_def using assms(1) by (rule distinct_map_filter)
  have m: "pid \<in> set (increased prev es)"
    unfolding increased_def using assms(2,3) by force
  have "filter (\<lambda>e. player_id e = pid) (map (scopa_of me) (increased prev es)) =
        map (scopa_of me) (filter (\<lambda>p. p = pid) (increased prev es))"
    by (simp add: filter_map comp_def scopa_of_def)
  with filter_eq_singleton[OF d m] show ?thesis by simp
qed

lemma dispatch_state_lastScopaBy_new:
  "lastScopaBy (dispatch (StateMsg ns) s) =
     (case gameState s of None \<Rightarrow> lastScopaBy s
      | Some prev \<Rightarrow>
          if increased prev (players ns) = [] then lastScopaBy s
          else Some (scopa_of (myPlayerId s) (last (increased prev (players ns)))))"
  by (simp add: handler_defs split: option.splits)

lemma increased_explicit:
  "map (scopa_of me) (increased prev es) =
     map (\<lambda>(pid, pinfo). \<lparr>player_id = pid, is_mine = (Some pid = me)\<rparr>)
       (filter (\<lambda>(pid, pinfo).
            (case map_of (players prev) pid of None \<Rightarrow> 0 | Some p \<Rightarrow> scopas p) < scopas pinfo) es)"
  by (induction es) (auto simp: increased_def oldScopas_def scopa_of_def)

section \<open>The connection manager\<close>

text \<open>
  C7. After any sequence of events (calls of \<^verbatim>\<open>connect\<close> and \<^verbatim>\<open>disconnect\<close>, socket
  events, messages, timers, taps) at most one connection is live. When \<^verbatim>\<open>connect\<close> is
  called then, every connection that existed before, the prior \<^verbatim>\<open>_ws\<close> among them, is
  no longer live (it is closing or closed) once the call returns; the call creates
  exactly one new socket, which is the new \<^verbatim>\<open>_ws\<close> and is connecting, and it sets the
  status to connecting.
\<close>

theorem single_live_connection:
  "(\<forall>i j. i < length (sockets (run evs (initial jc))) \<and> j < length (sockets (run evs (initial jc))) \<and>
          live (sockets (run evs (initial jc)) ! i) \<and> live (sockets (run evs (initial jc)) ! j) \<longrightarrow> i = j) \<and>
   (\<forall>i < length (sockets (run evs (initial jc))).
          \<not> live (sockets (connect sid pid (run evs (initial jc))) ! i)) \<and>
   length (sockets (connect sid pid (run evs (initial jc)))) = Suc (length (sockets (run evs (initial jc)))) \<and>
   ws (connect sid pid (run evs (initial jc))) = Some (length (sockets (run evs (initial jc)))) \<and>
   readyState (sockets (connect sid pid (run evs (initial jc))) ! length (sockets (run evs (initial jc)))) = CONNECTING \<and>
   wsStatus (connect sid pid (run evs (initial jc))) = Connecting"
proof -
  have ok: "sockets_ok (run evs (initial jc))"
    by (rule run_sockets[OF initial_sockets])
  have one: "\<forall>i j. i < length (sockets (run evs (initial jc))) \<and> j < length (sockets (run evs (initial jc))) \<and>
          live (sockets (run evs (initial jc)) ! i) \<and> live (sockets (run evs (initial jc)) ! j) \<longrightarrow> i = j"
    using ok unfolding sockets_ok_def by (metis option.inject)
  show ?thesis
    using one connect_sockets[OF ok, of sid pid] by blast
qed

text \<open>
  An instance: in the running game socket 0 is live; a second \<^verbatim>\<open>connect\<close> closes it
  and makes the connecting socket 1 the current one.
\<close>

theorem single_live_connection_witness:
  "live (sockets (run game_on (initial None)) ! 0) \<and>
   \<not> live (sockets (connect ''s1'' ''A'' (run game_on (initial None))) ! 0) \<and>
   ws (connect ''s1'' ''A'' (run game_on (initial None))) = Some 1 \<and>
   readyState (sockets (connect ''s1'' ''A'' (run game_on (initial None))) ! 1) = CONNECTING \<and>
   wsStatus (connect ''s1'' ''A'' (run game_on (initial None))) = Connecting"
proof -
  have len: "length (sockets (run game_on (initial None))) = 1"
    by code_simp
  have l0: "live (sockets (run game_on (initial None)) ! 0)"
    by code_simp
  from single_live_connection[of game_on None "''s1''" "''A''"] len l0
  show ?thesis by simp
qed

section \<open>The event detector\<close>

text \<open>
  C3. On a \<^verbatim>\<open>state\<close> message the events emitted (the values newly written to
  \<^verbatim>\<open>lastScopaBy\<close>) each come with one timer of 2500 ms (2.5 s), and no other timer is
  set; the store then holds the last event emitted, and when any of these timers fires
  the store is cleared (the event has expired) and the timer is gone. Without a previous
  state nothing is emitted. With a previous state, the events are those of the players of
  the new state whose scopa count exceeds their count in the previous state (0 for a
  player the previous state does not have), in the order of the new state; so every player
  who is in both states (the new state being a JSON object, its keys are distinct) and
  whose count grew gets exactly one event, with that player as owner and \<^verbatim>\<open>is_mine\<close>
  telling whether the owner is the local player. For the counts A:0, B:1 before and
  A:1, B:1 after, the events emitted are exactly one event owned by A.
\<close>

theorem scopa_events_on_state:
  "scopaEvents (dispatch (StateMsg ns) s) =
     scopaEvents s @ drop (length (scopaEvents s)) (scopaEvents (dispatch (StateMsg ns) s)) \<and>
   timers (dispatch (StateMsg ns) s) =
     timers s @ replicate (length (scopaEvents (dispatch (StateMsg ns) s)) - length (scopaEvents s))
                  (2500, ClearScopa) \<and>
   (gameState s = None \<longrightarrow>
      scopaEvents (dispatch (StateMsg ns) s) = scopaEvents s \<and>
      lastScopaBy (dispatch (StateMsg ns) s) = lastScopaBy s) \<and>
   (\<forall>prev pid pinfo p0.
      gameState s = Some prev \<and> distinct (map fst (players ns)) \<and>
      (pid, pinfo) \<in> set (players ns) \<and> map_of (players prev) pid = Some p0 \<and>
      scopas p0 < scopas pinfo \<longrightarrow>
      filter (\<lambda>e. player_id e = pid)
        (drop (length (scopaEvents s)) (scopaEvents (dispatch (StateMsg ns) s))) =
      [\<lparr>player_id = pid, is_mine = (Some pid = myPlayerId s)\<rparr>]) \<and>
   (\<forall>prev a0 b0 a1 b1.
      gameState s = Some prev \<and>
      players prev = [(''A'', a0), (''B'', b0)] \<and> scopas a0 = 0 \<and> scopas b0 = 1 \<and>
      players ns = [(''A'', a1), (''B'', b1)] \<and> scopas a1 = 1 \<and> scopas b1 = 1 \<longrightarrow>
      drop (length (scopaEvents s)) (scopaEvents (dispatch (StateMsg ns) s)) =
      [\<lparr>player_id = ''A'', is_mine = (Some ''A'' = myPlayerId s)\<rparr>]) \<and>
   (length (scopaEvents s) < length (scopaEvents (dispatch (StateMsg ns) s)) \<longrightarrow>
      lastScopaBy (dispatch (StateMsg ns) s) =
        Some (last (scopaEvents (dispatch (StateMsg ns) s)))) \<and>
   (\<forall>n. length (timers s) \<le> n \<and> n < length (timers (dispatch (StateMsg ns) s)) \<longrightarrow>
      lastScopaBy (step (TimerFires n) (dispatch (StateMsg ns) s)) = None \<and>
      timers (step (TimerFires n) (dispatch (StateMsg ns) s)) =
        take n (timers (dispatch (StateMsg ns) s)) @
        drop (Suc n) (timers (dispatch (StateMsg ns) s))) \<and>
   (\<forall>prev. gameState s = Some prev \<longrightarrow>
      drop (length (scopaEvents s)) (scopaEvents (dispatch (StateMsg ns) s)) =
      map (\<lambda>(pid, pinfo). \<lparr>player_id = pid, is_mine = (Some pid = myPlayerId s)\<rparr>)
        (filter (\<lambda>(pid, pinfo).
             (case map_of (players prev) pid of None \<Rightarrow> 0 | Some p \<Rightarrow> scopas p)
               < scopas pinfo)
           (players ns)))"
proof -
  let ?s' = "dispatch (StateMsg ns) s"
  let ?new = "drop (length (scopaEvents s)) (scopaEvents ?s')"
  let ?k = "length (scopaEvents ?s') - length (scopaEvents s)"
  have ev: "scopaEvents ?s' =
     scopaEvents s @ (case gameState s of None \<Rightarrow> []
                      | Some prev \<Rightarrow> map (scopa_of (myPlayerId s)) (increased prev (players ns)))"
    by (rule dispatch_state_scopaEvents)
  have c1: "scopaEvents ?s' = scopaEvents s @ ?new"
    unfolding ev by simp
  have c2: "timers ?s' =
     timers s @ replicate (length (scopaEvents ?s') - length (scopaEvents s)) (2500, ClearScopa)"
    unfolding dispatch_state_timers ev by (simp split: option.splits)
  have c3: "gameState s = None \<longrightarrow>
      scopaEvents ?s' = scopaEvents s \<and> lastScopaBy ?s' = lastScopaBy s"
    unfolding ev by (simp add: dispatch_state_lastScopaBy del: dispatch.simps)
  have c4: "\<forall>prev pid pinfo p0.
      gameState s = Some prev \<and> distinct (map fst (players ns)) \<and>
      (pid, pinfo) \<in> set (players ns) \<and> map_of (players prev) pid = Some p0 \<and>
      scopas p0 < scopas pinfo \<longrightarrow>
      filter (\<lambda>e. player_id e = pid) ?new =
      [\<lparr>player_id = pid, is_mine = (Some pid = myPlayerId s)\<rparr>]"
  proof (intro allI impI, elim conjE)
    fix prev pid pinfo p0
    assume g: "gameState s = Some prev" and d: "distinct (map fst (players ns))"
      and m: "(pid, pinfo) \<in> set (players ns)" and o: "map_of (players prev) pid = Some p0"
      and lt: "scopas p0 < scopas pinfo"
    from o lt have "oldScopas prev pid < scopas pinfo" by (simp add: oldScopas_def)
    from increased_once[OF d m this, of "myPlayerId s"] g
    show "filter (\<lambda>e. player_id e = pid) ?new =
      [\<lparr>player_id = pid, is_mine = (Some pid = myPlayerId s)\<rparr>]"
      unfolding ev by (simp add: scopa_of_def)
  qed
  have c5: "\<forall>prev a0 b0 a1 b1.
      gameState s = Some prev \<and>
      players prev = [(''A'', a0), (''B'', b0)] \<and> scopas a0 = 0 \<and> scopas b0 = 1 \<and>
      players ns = [(''A'', a1), (''B'', b1)] \<and> scopas a1 = 1 \<and> scopas b1 = 1 \<longrightarrow>
      ?new = [\<lparr>player_id = ''A'', is_mine = (Some ''A'' = myPlayerId s)\<rparr>]"
    unfolding ev by (simp add: increased_def oldScopas_def scopa_of_def)
  have c6: "length (scopaEvents s) < length (scopaEvents ?s') \<longrightarrow>
      lastScopaBy ?s' = Some (last (scopaEvents ?s'))"
    unfolding ev dispatch_state_lastScopaBy_new
    by (simp add: last_map split: option.splits)
  have c7: "\<forall>n. length (timers s) \<le> n \<and> n < length (timers ?s') \<longrightarrow>
      lastScopaBy (step (TimerFires n) ?s') = None \<and>
      timers (step (TimerFires n) ?s') = take n (timers ?s') @ drop (Suc n) (timers ?s')"
  proof (intro allI impI, elim conjE)
    fix n assume lo: "length (timers s) \<le> n" and hi: "n < length (timers ?s')"
    from hi c2 have "n - length (timers s) < ?k" using lo by simp
    with lo have "timers ?s' ! n = (2500, ClearScopa)"
      by (subst c2) (simp add: nth_append)
    with hi show "lastScopaBy (step (TimerFires n) ?s') = None \<and>
      timers (step (TimerFires n) ?s') = take n (timers ?s') @ drop (Suc n) (timers ?s')"
      by (simp add: step_def fire_def flush_def reactive_clear_def Let_def del: dispatch.simps)
  qed
  have c8: "\<forall>prev. gameState s = Some prev \<longrightarrow>
      ?new =
      map (\<lambda>(pid, pinfo). \<lparr>player_id = pid, is_mine = (Some pid = myPlayerId s)\<rparr>)
        (filter (\<lambda>(pid, pinfo).
             (case map_of (players prev) pid of None \<Rightarrow> 0 | Some p \<Rightarrow> scopas p)
               < scopas pinfo)
           (players ns))"
    unfolding ev by (simp add: increased_explicit)
  from c1 c2 c3 c4 c5 c6 c7 c8 show ?thesis by blast
qed

text \<open>
  An instance: in the running game of player A, A's count goes from 0 to 1. The event
  is shown, and it is gone when its timer has fired.
\<close>

theorem scopa_events_on_state_witness:
  "drop (length (scopaEvents (run game_on (initial None))))
     (scopaEvents (dispatch (StateMsg after_sweep_state) (run game_on (initial None)))) =
   [\<lparr>player_id = ''A'', is_mine = True\<rparr>] \<and>
   timers (dispatch (StateMsg after_sweep_state) (run game_on (initial None))) =
     [(2500, ClearScopa)] \<and>
   lastScopaBy (dispatch (StateMsg after_sweep_state) (run game_on (initial None))) =
     Some \<lparr>player_id = ''A'', is_mine = True\<rparr> \<and>
   lastScopaBy (step (TimerFires 0)
      (dispatch (StateMsg after_sweep_state) (run game_on (initial None)))) = None \<and>
   timers (step (TimerFires 0)
      (dispatch (StateMsg after_sweep_state) (run game_on (initial None)))) = []"
proof -
  let ?s = "run game_on (initial None)"
  have g: "gameState ?s = Some my_turn_state" "myPlayerId ?s = Some ''A''"
    "timers ?s = []" "scopaEvents ?s = []"
    by code_simp+
  have p: "players my_turn_state =
      [(''A'', \<lparr>hand_count = 2, captured_count = 0, scopas = 0\<rparr>),
       (''B'', \<lparr>hand_count = 2, captured_count = 2, scopas = 1\<rparr>)]"
    by (simp add: my_turn_state_def)
  have q: "players after_sweep_state =
      [(''A'', \<lparr>hand_count = 1, captured_count = 3, scopas = 1\<rparr>),
       (''B'', \<lparr>hand_count = 2, captured_count = 2, scopas = 1\<rparr>)]"
    by (simp add: after_sweep_state_def)
  note t = scopa_events_on_state[of after_sweep_state ?s]
  from t g p q
  have e: "scopaEvents (dispatch (StateMsg after_sweep_state) ?s) =
      [\<lparr>player_id = ''A'', is_mine = True\<rparr>]"
    by (simp del: dispatch.simps)
  from t g e
  have u: "timers (dispatch (StateMsg after_sweep_state) ?s) = [(2500, ClearScopa)]"
    by (simp del: dispatch.simps)
  from t g e
  have l: "lastScopaBy (dispatch (StateMsg after_sweep_state) ?s) =
      Some \<lparr>player_id = ''A'', is_mine = True\<rparr>"
    by (simp del: dispatch.simps)
  from t g u
  have f: "lastScopaBy (step (TimerFires 0) (dispatch (StateMsg after_sweep_state) ?s)) = None \<and>
      timers (step (TimerFires 0) (dispatch (StateMsg after_sweep_state) ?s)) = []"
    by (simp del: dispatch.simps)
  from e u l f g show ?thesis by (simp del: dispatch.simps)
qed

lemma flush_fields [simp]:
  "gameState (flush s) = gameState s" "errorMessage (flush s) = errorMessage s"
  "roundResult (flush s) = roundResult s" "scopaEvents (flush s) = scopaEvents s"
  "lastScopaBy (flush s) = lastScopaBy s" "timers (flush s) = timers s"
  "selectedCard (flush s) = selectedCard s" "captureOptions (flush s) = captureOptions s"
  "capturesLoaded (flush s) = capturesLoaded s" "sent (flush s) = sent s"
  "console (flush s) = console s" "joinCode (flush s) = joinCode s"
  "wsStatus (flush s) = wsStatus s" "isWaiting (flush s) = isWaiting s"
  by (simp_all add: flush_def reactive_clear_def Let_def)

lemma flush_pending_cleared:
  "selection_pre s \<Longrightarrow> selectedCard s = None \<Longrightarrow> pendingTableIds (flush s) = {||}"
  using flush_selection[of s] by (simp add: selection_ok_def)

lemma reachable_selection: "selection_ok (run evs (initial jc))"
  by (rule run_selection[OF initial_selection])

text \<open>The search of \<^verbatim>\<open>handleTableCard\<close> finds an option iff one has the elements and the size of the pending set.\<close>

lemma match_iff:
  "(length opt = fcard p \<and> fBall p (\<lambda>i. i \<in> set opt)) \<longleftrightarrow>
   (set opt = fset p \<and> length opt = fcard p)"
proof
  assume a: "length opt = fcard p \<and> fBall p (\<lambda>i. i \<in> set opt)"
  then have sub: "fset p \<subseteq> set opt" by auto
  have "card (set opt) \<le> length opt" by (rule card_length)
  with a have "card (set opt) \<le> card (fset p)" by (simp add: fcard.rep_eq)
  with sub have "fset p = set opt" by (intro card_seteq) simp_all
  with a show "set opt = fset p \<and> length opt = fcard p" by simp
next
  assume "set opt = fset p \<and> length opt = fcard p"
  then show "length opt = fcard p \<and> fBall p (\<lambda>i. i \<in> set opt)" by auto
qed

lemma exactMatch_None:
  "exactMatch opts p = None \<longleftrightarrow>
   \<not> (\<exists>opt \<in> set opts. set opt = fset p \<and> length opt = fcard p)"
  unfolding exactMatch_def find_None_iff match_iff by blast

lemma exactMatch_Some:
  "exactMatch opts p = Some opt \<Longrightarrow>
   opt \<in> set opts \<and> set opt = fset p \<and> length opt = fcard p"
  unfolding exactMatch_def find_Some_iff match_iff by (auto simp: in_set_conv_nth)

section \<open>The message dispatcher\<close>

text \<open>
  C2. A \<^verbatim>\<open>state\<close> message delivered in any reachable state. The sweep diff compares
  the payload with the game state that is in the store when the message arrives: the
  events emitted are those of the players of the payload whose scopa count exceeds their
  count in that previous state (0 for a player it does not have), each with a timer of
  2500 ms, and \<^verbatim>\<open>lastScopaBy\<close> holds the last of them; without a previous state nothing
  is emitted. The game state is then the payload, the error message and the round
  result are cleared; and if the payload says it is not the local player's turn, the
  selected card, the capture options, the loaded flag and the pending ids are cleared,
  whatever was selected.
\<close>

theorem state_message_effect:
  fixes evs jc i ns
  defines "s \<equiv> run evs (initial jc)"
  defines "s' \<equiv> step (SocketReceives i (Parsed (StateMsg ns))) s"
  defines "new \<equiv>
     (case gameState s of
        None \<Rightarrow> []
      | Some prev \<Rightarrow>
          map (\<lambda>(pid, pinfo). \<lparr>player_id = pid, is_mine = (Some pid = myPlayerId s)\<rparr>)
            (filter (\<lambda>(pid, pinfo).
                 (case map_of (players prev) pid of None \<Rightarrow> 0 | Some p \<Rightarrow> scopas p)
                   < scopas pinfo)
               (players ns)))"
  assumes "socket_is i OPEN s"
  shows "scopaEvents s' = scopaEvents s @ new \<and>
         lastScopaBy s' = (if new = [] then lastScopaBy s else Some (last new)) \<and>
         timers s' = timers s @ replicate (length new) (2500, ClearScopa) \<and>
         gameState s' = Some ns \<and> errorMessage s' = None \<and> roundResult s' = None \<and>
         (\<not> is_human_turn ns \<longrightarrow>
            selectedCard s' = None \<and> captureOptions s' = [] \<and> \<not> capturesLoaded s' \<and>
            pendingTableIds s' = {||})"
proof -
  let ?m = "dispatch (StateMsg ns) s"
  have s': "s' = flush ?m"
    using assms(4) by (simp add: s'_def step_def onmessage_def del: dispatch.simps)
  have pre: "selection_pre ?m"
    unfolding s_def by (rule dispatch_selection[OF reachable_selection])
  have new: "new = (case gameState s of None \<Rightarrow> []
      | Some prev \<Rightarrow> map (scopa_of (myPlayerId s)) (increased prev (players ns)))"
    unfolding new_def by (simp add: increased_explicit split: option.splits)
  have e: "scopaEvents ?m = scopaEvents s @ new"
    unfolding new by (rule dispatch_state_scopaEvents)
  have l: "lastScopaBy ?m = (if new = [] then lastScopaBy s else Some (last new))"
    unfolding new dispatch_state_lastScopaBy_new
    by (simp add: last_map split: option.splits)
  have t: "timers ?m = timers s @ replicate (length new) (2500, ClearScopa)"
    unfolding new dispatch_state_timers by (simp split: option.splits)
  have a: "gameState ?m = Some ns \<and> errorMessage ?m = None \<and> roundResult ?m = None"
    by (simp add: set_selectedCard_def Let_def split: option.splits)
  have b: "\<not> is_human_turn ns \<longrightarrow>
      selectedCard ?m = None \<and> captureOptions ?m = [] \<and> \<not> capturesLoaded ?m"
    by (simp add: set_selectedCard_def Let_def)
  have c: "\<not> is_human_turn ns \<longrightarrow> pendingTableIds (flush ?m) = {||}"
    using b flush_pending_cleared[OF pre] by blast
  from e l t a b c show ?thesis unfolding s' by (simp del: dispatch.simps)
qed

text \<open>
  An instance: c1 of the combination c1 + c2 is pending when the state after A's sweep
  arrives, with the opponent to move. The diff against the previous counts A:0, B:1
  yields the one event for A (none for B, whose count is 1 in both states), and the
  selection is cleared.
\<close>

theorem state_message_effect_witness:
  "pendingTableIds (run partial_pick (initial None)) = {|''c1''|} \<and>
   selectedCard (run partial_pick (initial None)) = Some hand_seven \<and>
   scopaEvents (run partial_pick (initial None)) = [] \<and>
   scopaEvents (step (SocketReceives 0 (Parsed (StateMsg after_sweep_state)))
      (run partial_pick (initial None))) = [\<lparr>player_id = ''A'', is_mine = True\<rparr>] \<and>
   lastScopaBy (step (SocketReceives 0 (Parsed (StateMsg after_sweep_state)))
      (run partial_pick (initial None))) = Some \<lparr>player_id = ''A'', is_mine = True\<rparr> \<and>
   timers (step (SocketReceives 0 (Parsed (StateMsg after_sweep_state)))
      (run partial_pick (initial None))) = [(2500, ClearScopa)] \<and>
   selectedCard (step (SocketReceives 0 (Parsed (StateMsg after_sweep_state)))
      (run partial_pick (initial None))) = None \<and>
   pendingTableIds (step (SocketReceives 0 (Parsed (StateMsg after_sweep_state)))
      (run partial_pick (initial None))) = {||} \<and>
   gameState (step (SocketReceives 0 (Parsed (StateMsg after_sweep_state)))
      (run partial_pick (initial None))) = Some after_sweep_state"
proof -
  let ?s = "run partial_pick (initial None)"
  have o: "socket_is 0 OPEN ?s"
    by code_simp
  have p: "pendingTableIds ?s = {|''c1''|}" "selectedCard ?s = Some hand_seven"
    "scopaEvents ?s = []" "timers ?s = []" "myPlayerId ?s = Some ''A''"
    "gameState ?s = Some my_turn_state"
    by code_simp+
  have q: "players my_turn_state =
      [(''A'', \<lparr>hand_count = 2, captured_count = 0, scopas = 0\<rparr>),
       (''B'', \<lparr>hand_count = 2, captured_count = 2, scopas = 1\<rparr>)]"
    by (simp add: my_turn_state_def)
  have r: "players after_sweep_state =
      [(''A'', \<lparr>hand_count = 1, captured_count = 3, scopas = 1\<rparr>),
       (''B'', \<lparr>hand_count = 2, captured_count = 2, scopas = 1\<rparr>)]"
    "\<not> is_human_turn after_sweep_state"
    by (simp_all add: after_sweep_state_def)
  from state_message_effect[where evs = partial_pick and jc = None and i = 0
      and ns = after_sweep_state, OF o] p q r
  show ?thesis by simp
qed

text \<open>
  C10. A \<^verbatim>\<open>captures\<close> message delivered in any state replaces the capture options by
  its payload and sets the loaded flag, leaving the selected card, the game state and
  the frames sent as they are: nothing is checked, neither a selection, nor the turn, nor
  which request the message answers.
\<close>

theorem captures_applied_unconditionally:
  fixes s i opts
  defines "s' \<equiv> step (SocketReceives i (Parsed (CapturesMsg opts))) s"
  assumes "socket_is i OPEN s"
  shows "captureOptions s' = opts \<and> capturesLoaded s' \<and> selectedCard s' = selectedCard s \<and>
         gameState s' = gameState s \<and> sent s' = sent s"
  using assms(2) by (simp add: s'_def step_def onmessage_def)

text \<open>
  An instance: two requests are out, for h7 and then h5; the answer to the first is
  applied while h5 is selected.
\<close>

theorem captures_applied_unconditionally_witness:
  "sent (run two_requests (initial None)) = [GetCaptures ''h7'', GetCaptures ''h5''] \<and>
   selectedCard (step (SocketReceives 0 (Parsed (CapturesMsg [[''c1'', ''c2'']])))
      (run two_requests (initial None))) = Some hand_five \<and>
   captureOptions (step (SocketReceives 0 (Parsed (CapturesMsg [[''c1'', ''c2'']])))
      (run two_requests (initial None))) = [[''c1'', ''c2'']] \<and>
   capturesLoaded (step (SocketReceives 0 (Parsed (CapturesMsg [[''c1'', ''c2'']])))
      (run two_requests (initial None)))"
proof -
  have o: "socket_is 0 OPEN (run two_requests (initial None))"
    by code_simp
  have q: "sent (run two_requests (initial None)) = [GetCaptures ''h7'', GetCaptures ''h5'']"
    by code_simp
  have c: "selectedCard (run two_requests (initial None)) = Some hand_five"
    by code_simp
  from captures_applied_unconditionally[where s = "run two_requests (initial None)"
      and i = 0 and opts = "[[''c1'', ''c2'']]", OF o] q c
  show ?thesis by simp
qed

section \<open>The capture selector\<close>

text \<open>
  C4. In any reachable state with a card selected, a tap on a hand card with the same
  id clears the selected card, the capture options, the loaded flag and the pending ids.
  If the capture options are empty, it hands the frame
  \<^verbatim>\<open>{type: "play", card_id, capture_ids: []}\<close> to \<^verbatim>\<open>sendPlay\<close>, exactly as a call
  of \<^verbatim>\<open>sendPlay\<close> in that state does: on an open connection that one frame is
  transmitted, otherwise \<^verbatim>\<open>_send\<close> logs it as not sent. If the capture options are
  not empty, nothing is sent and nothing is logged.
\<close>

theorem second_tap_discards_or_cancels:
  fixes evs jc c sel
  defines "s \<equiv> run evs (initial jc)"
  defines "s' \<equiv> handleHandCard c s"
  assumes "selectedCard s = Some sel" and "card_id c = card_id sel"
  shows "selectedCard s' = None \<and> captureOptions s' = [] \<and> pendingTableIds s' = {||} \<and>
         \<not> capturesLoaded s' \<and>
         (captureOptions s = [] \<longrightarrow>
            sent s' = sent (sendPlay (card_id c) [] s) \<and>
            console s' = console (sendPlay (card_id c) [] s) \<and>
            (ws_open s \<longrightarrow> sent s' = sent s @ [Play (card_id c) []] \<and> console s' = console s) \<and>
            (\<not> ws_open s \<longrightarrow> sent s' = sent s \<and>
               console s' = console s @ [LogCannotSend (Play (card_id c) [])])) \<and>
         (captureOptions s \<noteq> [] \<longrightarrow> sent s' = sent s \<and> console s' = console s)"
proof -
  have "selection_ok s" unfolding s_def by (rule reachable_selection)
  with assms(3) have turn: "isMyTurn s" by (simp add: selection_ok_def)
  show ?thesis
    using turn assms(3,4)
    by (simp add: s'_def handleHandCard_def executePlay_def cancelSelection_def
        sendPlay_def send_def set_selectedCard_def)
qed

text \<open>
  Two instances: the seven is selected and captures nothing, a second tap discards it;
  the seven is selected with the option c1 + c2, a second tap only deselects.
\<close>

theorem second_tap_discards_or_cancels_witness:
  "selectedCard (run seven_selected (initial None)) = Some hand_seven \<and>
   captureOptions (run seven_selected (initial None)) = [] \<and>
   sent (handleHandCard hand_seven (run seven_selected (initial None))) =
     [GetCaptures ''h7'', Play ''h7'' []] \<and>
   selectedCard (handleHandCard hand_seven (run seven_selected (initial None))) = None \<and>
   sent (handleHandCard hand_seven (run partial_pick (initial None))) = [GetCaptures ''h7''] \<and>
   selectedCard (handleHandCard hand_seven (run partial_pick (initial None))) = None"
proof -
  have a: "selectedCard (run seven_selected (initial None)) = Some hand_seven"
    "captureOptions (run seven_selected (initial None)) = []"
    "ws_open (run seven_selected (initial None))"
    "sent (run seven_selected (initial None)) = [GetCaptures ''h7'']"
    by code_simp+
  have b: "selectedCard (run partial_pick (initial None)) = Some hand_seven"
    "captureOptions (run partial_pick (initial None)) = [[''c1'', ''c2'']]"
    "sent (run partial_pick (initial None)) = [GetCaptures ''h7'']"
    by code_simp+
  have i: "card_id hand_seven = ''h7''" by (simp add: hand_seven_def)
  from second_tap_discards_or_cancels[where evs = seven_selected and jc = None
      and c = hand_seven and sel = hand_seven, OF a(1) refl]
    second_tap_discards_or_cancels[where evs = partial_pick and jc = None
      and c = hand_seven and sel = hand_seven, OF b(1) refl] a b i
  show ?thesis by (simp add: sendPlay_def send_def)
qed

text \<open>
  C1. Let a tap on a table card pass the guards of \<^verbatim>\<open>handleTableCard\<close> (a card is
  selected, it is the local player's turn, the id is capturable or pending), and let
  \<open>p\<close> be the pending set after the toggle. If some capture option has the elements of
  \<open>p\<close> and its size, then one such option is played: \<^verbatim>\<open>sendPlay\<close> is called once, with
  the selected card's id and that option's ids (one frame is transmitted if the connection
  is open), and the selected card, the capture options, the loaded flag and the pending
  ids are cleared. If no capture option has the elements of \<open>p\<close> (so \<open>p\<close> is at most a
  partial subset of options), nothing is sent or cleared: only the pending set changes.
\<close>

theorem exact_match_executes_play:
  fixes s c sel
  defines "p \<equiv> toggle (card_id c) (pendingTableIds s)"
  defines "s' \<equiv> handleTableCard c s"
  assumes "selectedCard s = Some sel" and "isMyTurn s"
    and "card_id c |\<in>| capturableIds s \<or> card_id c |\<in>| pendingTableIds s"
  shows "((\<exists>opt \<in> set (captureOptions s). set opt = fset p \<and> length opt = fcard p) \<longrightarrow>
          (\<exists>opt \<in> set (captureOptions s). set opt = fset p \<and> length opt = fcard p \<and>
             sent s' = sent (sendPlay (card_id sel) opt s) \<and>
             console s' = console (sendPlay (card_id sel) opt s) \<and>
             (ws_open s \<longrightarrow> sent s' = sent s @ [Play (card_id sel) opt] \<and> console s' = console s) \<and>
             selectedCard s' = None \<and> captureOptions s' = [] \<and> pendingTableIds s' = {||} \<and>
             \<not> capturesLoaded s')) \<and>
         ((\<forall>opt \<in> set (captureOptions s). set opt \<noteq> fset p) \<longrightarrow>
            s' = s\<lparr>pendingTableIds := p\<rparr>)"
proof (cases "exactMatch (captureOptions s) p")
  case None
  then have no: "\<not> (\<exists>opt \<in> set (captureOptions s). set opt = fset p \<and> length opt = fcard p)"
    by (simp add: exactMatch_None)
  have "s' = s\<lparr>pendingTableIds := p\<rparr>"
    using assms(3,4,5) None
    by (auto simp: s'_def p_def handleTableCard_def Let_def)
  with no show ?thesis by blast
next
  case (Some opt)
  from exactMatch_Some[OF Some]
  have m: "opt \<in> set (captureOptions s)" "set opt = fset p" "length opt = fcard p"
    by simp_all
  have e: "s' = executePlay (card_id sel) opt (s\<lparr>pendingTableIds := p\<rparr>)"
    using assms(3,4,5) Some
    by (auto simp: s'_def p_def handleTableCard_def Let_def)
  have "sent s' = sent (sendPlay (card_id sel) opt s) \<and>
        console s' = console (sendPlay (card_id sel) opt s) \<and>
        (ws_open s \<longrightarrow> sent s' = sent s @ [Play (card_id sel) opt] \<and> console s' = console s) \<and>
        selectedCard s' = None \<and> captureOptions s' = [] \<and> pendingTableIds s' = {||} \<and>
        \<not> capturesLoaded s'"
    unfolding e
    by (auto simp: executePlay_def sendPlay_def send_def set_selectedCard_def ws_open_def
        split: option.splits)
  with m show ?thesis by blast
qed

text \<open>
  An instance, with the option c1 + c2 and c1 pending: tapping c2 plays the seven on
  c1 and c2; tapping c1 again only empties the pending set.
\<close>

theorem exact_match_executes_play_witness:
  "sent (handleTableCard table_c2 (run partial_pick (initial None))) =
     [GetCaptures ''h7'', Play ''h7'' [''c1'', ''c2'']] \<and>
   selectedCard (handleTableCard table_c2 (run partial_pick (initial None))) = None \<and>
   captureOptions (handleTableCard table_c2 (run partial_pick (initial None))) = [] \<and>
   pendingTableIds (handleTableCard table_c2 (run partial_pick (initial None))) = {||} \<and>
   handleTableCard table_c1 (run partial_pick (initial None)) =
     (run partial_pick (initial None))\<lparr>pendingTableIds := {||}\<rparr>"
proof -
  let ?s = "run partial_pick (initial None)"
  have a: "selectedCard ?s = Some hand_seven" "isMyTurn ?s"
    "captureOptions ?s = [[''c1'', ''c2'']]" "pendingTableIds ?s = {|''c1''|}"
    "ws_open ?s" "sent ?s = [GetCaptures ''h7'']"
    by code_simp+
  have g2: "card_id table_c2 |\<in>| capturableIds ?s \<or> card_id table_c2 |\<in>| pendingTableIds ?s"
    by (simp add: capturableIds_def a table_c2_def)
  have g1: "card_id table_c1 |\<in>| capturableIds ?s \<or> card_id table_c1 |\<in>| pendingTableIds ?s"
    by (simp add: capturableIds_def a table_c1_def)
  have t2: "toggle (card_id table_c2) (pendingTableIds ?s) = {|''c1'', ''c2''|}"
    by (auto simp: a toggle_def table_c2_def)
  have t1: "toggle (card_id table_c1) (pendingTableIds ?s) = {||}"
    by (simp add: a toggle_def table_c1_def)
  have f: "fcard {|''c1'', ''c2''|} = 2" by (simp add: fcard_finsert_if)
  from exact_match_executes_play[where s = ?s and c = table_c2 and sel = hand_seven,
      OF a(1) a(2) g2]
  have x: "sent (handleTableCard table_c2 ?s) = [GetCaptures ''h7'', Play ''h7'' [''c1'', ''c2'']] \<and>
   selectedCard (handleTableCard table_c2 ?s) = None \<and>
   captureOptions (handleTableCard table_c2 ?s) = [] \<and>
   pendingTableIds (handleTableCard table_c2 ?s) = {||}"
    unfolding t2 a(3) using a(5,6) f by (auto simp: hand_seven_def)
  from exact_match_executes_play[where s = ?s and c = table_c1 and sel = hand_seven,
      OF a(1) a(2) g1]
  have y: "handleTableCard table_c1 ?s = ?s\<lparr>pendingTableIds := {||}\<rparr>"
    unfolding t1 a(3) by simp
  from x y show ?thesis by simp
qed

lemma toggle_toggle: "toggle i (toggle i p) = p"
  by (auto simp: toggle_def)

lemma double_toggle_state:
  assumes "pendingTableIds s |\<subseteq>| capturableIds s"
    and "exactMatch (captureOptions s) (toggle (card_id c) (pendingTableIds s)) = None"
    and "exactMatch (captureOptions s) (pendingTableIds s) = None"
  shows "handleTableCard c (handleTableCard c s) = s"
proof (cases "selectedCard s = None \<or> \<not> isMyTurn s \<or>
    (card_id c |\<notin>| capturableIds s \<and> card_id c |\<notin>| pendingTableIds s)")
  case True
  then have "handleTableCard c s = s"
    by (auto simp: handleTableCard_def split: option.splits)
  then show ?thesis by simp
next
  case False
  then obtain sel where sel: "selectedCard s = Some sel" and turn: "isMyTurn s"
    and g: "card_id c |\<in>| capturableIds s \<or> card_id c |\<in>| pendingTableIds s"
    by auto
  from g assms(1) have cap: "card_id c |\<in>| capturableIds s" by auto
  let ?s1 = "s\<lparr>pendingTableIds := toggle (card_id c) (pendingTableIds s)\<rparr>"
  have one: "handleTableCard c s = ?s1"
    using sel turn cap assms(2) by (simp add: handleTableCard_def Let_def)
  have two: "handleTableCard c ?s1 = s"
    using sel turn cap assms(3)
    by (simp add: handleTableCard_def Let_def capturableIds_def isMyTurn_def toggle_toggle)
  from one two show ?thesis by simp
qed

text \<open>
  C5, as the code has it. When the pending ids are among the ids of the capture options,
  and neither the first toggle of a table card nor the second one makes the pending set
  match a capture option, two taps on that card give back the pending set (and the whole
  state) from before.
\<close>

theorem double_toggle_restores:
  assumes "pendingTableIds s |\<subseteq>| capturableIds s"
    and "exactMatch (captureOptions s) (toggle (card_id c) (pendingTableIds s)) = None"
    and "exactMatch (captureOptions s) (pendingTableIds s) = None"
  shows "pendingTableIds (handleTableCard c (handleTableCard c s)) = pendingTableIds s"
  using double_toggle_state[OF assms] by simp

text \<open>An instance: with the option c1 + c2 and c1 pending, c1 is tapped twice.\<close>

theorem double_toggle_restores_witness:
  "pendingTableIds (handleTableCard table_c1
      (handleTableCard table_c1 (run partial_pick (initial None)))) = {|''c1''|}"
proof -
  let ?s = "run partial_pick (initial None)"
  have p: "pendingTableIds ?s = {|''c1''|}" by code_simp
  have a: "pendingTableIds ?s |\<subseteq>| capturableIds ?s" by code_simp
  have b: "exactMatch (captureOptions ?s) (toggle (card_id table_c1) (pendingTableIds ?s)) = None"
    by code_simp
  have c: "exactMatch (captureOptions ?s) (pendingTableIds ?s) = None"
    by code_simp
  from double_toggle_restores[OF a b c] p show ?thesis by simp
qed

text \<open>
  C5 as stated fails where the first toggle completes a combination: with c1 pending and
  the option c1 + c2, the first tap on c2 plays the combination and empties the pending
  set, and the second tap does nothing, no card being selected any more.
\<close>

theorem double_toggle_counterexample:
  "pendingTableIds (run partial_pick (initial None)) = {|''c1''|} \<and>
   pendingTableIds (handleTableCard table_c2
      (handleTableCard table_c2 (run partial_pick (initial None)))) = {||} \<and>
   pendingTableIds (handleTableCard table_c2
      (handleTableCard table_c2 (run partial_pick (initial None)))) \<noteq>
   pendingTableIds (run partial_pick (initial None))"
proof -
  have a: "pendingTableIds (run partial_pick (initial None)) = {|''c1''|}"
    by code_simp
  have b: "pendingTableIds (handleTableCard table_c2
      (handleTableCard table_c2 (run partial_pick (initial None)))) = {||}"
    by code_simp
  have "{||} \<noteq> {|''c1''|}" by auto
  with a b show ?thesis by simp
qed

section \<open>Sending\<close>

lemma dispatch_wsStatus: "wsStatus (dispatch m s) = Connecting \<Longrightarrow> wsStatus s = Connecting"
  by (cases m) (auto simp: handler_defs split: option.splits if_splits)

lemma handler_wsStatus [simp]:
  "wsStatus (handleHandCard c s) = wsStatus s"
  "wsStatus (handleTableCard c s) = wsStatus s"
  "wsStatus (cancelSelection s) = wsStatus s"
  by (simp_all add: handler_defs split: option.splits)

lemma ws_open_cong:
  "ws t = ws s \<Longrightarrow> sockets t = sockets s \<Longrightarrow> ws_open t = ws_open s"
  by (simp add: ws_open_def split: option.splits)

lemma handle_connecting: "connecting_ok s \<Longrightarrow> connecting_ok (handle e s)"
proof (cases e)
  case (ConnectCall sid pid)
  show ?thesis
    by (simp add: ConnectCall connecting_ok_def ws_open_def connect_def disconnect_def Let_def
        split: option.splits)
next
  case DisconnectCall
  show ?thesis
    by (simp add: DisconnectCall connecting_ok_def ws_open_def disconnect_def
        split: option.splits)
next
  case (SocketReceives i f)
  assume a: "connecting_ok s"
  show ?thesis
  proof (cases f)
    case Malformed
    have "ws_open (onmessage Malformed s) = ws_open s"
      by (rule ws_open_cong) (simp_all add: onmessage_def)
    with a show ?thesis
      by (simp add: SocketReceives Malformed connecting_ok_def) (simp add: onmessage_def)
  next
    case (Parsed m)
    have "ws_open (dispatch m s) = ws_open s" by (rule ws_open_cong) simp_all
    with a dispatch_wsStatus[of m s] show ?thesis
      by (auto simp: SocketReceives Parsed connecting_ok_def onmessage_def)
  qed
next
  case (TapHandCard c)
  assume a: "connecting_ok s"
  have "ws_open (handleHandCard c s) = ws_open s" by (rule ws_open_cong) simp_all
  with a show ?thesis by (simp add: TapHandCard connecting_ok_def)
next
  case (TapTableCard c)
  assume a: "connecting_ok s"
  have "ws_open (handleTableCard c s) = ws_open s" by (rule ws_open_cong) simp_all
  with a show ?thesis by (simp add: TapTableCard connecting_ok_def)
next
  case TapCancel
  assume a: "connecting_ok s"
  have "ws_open (cancelSelection s) = ws_open s" by (rule ws_open_cong) simp_all
  with a show ?thesis by (simp add: TapCancel connecting_ok_def)
qed (auto simp: connecting_ok_def ws_open_def onopen_def onclose_def onerror_def fire_def
      split: timer_action.splits option.splits)

lemma step_connecting: "connecting_ok s \<Longrightarrow> connecting_ok (step e s)"
proof -
  assume "connecting_ok s"
  then have h: "connecting_ok (handle e s)" by (rule handle_connecting)
  have "ws_open (flush (handle e s)) = ws_open (handle e s)" by (rule ws_open_cong) simp_all
  with h show ?thesis by (simp add: step_def connecting_ok_def)
qed

lemma run_connecting: "connecting_ok s \<Longrightarrow> connecting_ok (run es s)"
  by (induction es arbitrary: s) (simp_all add: step_connecting)

lemma initial_connecting: "connecting_ok (initial jc)"
  by (simp add: connecting_ok_def initial_def)

text \<open>
  C8, as the code has it. \<^verbatim>\<open>_send\<close> transmits the message, and changes nothing else,
  exactly if \<^verbatim>\<open>_ws\<close> is set and its socket is open; otherwise it transmits nothing and
  changes nothing but the console, where it logs the message as not sent. The guard reads
  the socket, not the status store: in a reachable state with status connecting the
  socket is never open.
\<close>

theorem send_iff_socket_open:
  "(ws_open s \<longrightarrow> send m s = s\<lparr>sent := sent s @ [m]\<rparr>) \<and>
   (\<not> ws_open s \<longrightarrow> send m s = s\<lparr>console := console s @ [LogCannotSend m]\<rparr>) \<and>
   (wsStatus (run evs (initial jc)) = Connecting \<longrightarrow> \<not> ws_open (run evs (initial jc)))"
  using run_connecting[OF initial_connecting, of evs jc]
  by (simp add: send_def connecting_ok_def)

text \<open>
  Instances: a send in the running game, a send after \<^verbatim>\<open>disconnect\<close>, and the state
  right after \<^verbatim>\<open>connect\<close>.
\<close>

theorem send_iff_socket_open_witness:
  "sent (send (Play ''h7'' []) (run game_on (initial None))) = [Play ''h7'' []] \<and>
   console (send (Play ''h7'' []) (run hung_up (initial None))) =
     [LogConnected, LogCannotSend (Play ''h7'' [])] \<and>
   \<not> ws_open (run [ConnectCall ''s1'' ''A''] (initial None))"
proof -
  have a: "ws_open (run game_on (initial None))" "sent (run game_on (initial None)) = []"
    by code_simp+
  have b: "\<not> ws_open (run hung_up (initial None))"
    "console (run hung_up (initial None)) = [LogConnected]"
    by code_simp+
  have c: "wsStatus (run [ConnectCall ''s1'' ''A''] (initial None)) = Connecting"
    by code_simp
  from send_iff_socket_open[of "run game_on (initial None)" "Play ''h7'' []"
      "[ConnectCall ''s1'' ''A'']" None]
    send_iff_socket_open[of "run hung_up (initial None)" "Play ''h7'' []"
      "[ConnectCall ''s1'' ''A'']" None] a b c
  show ?thesis by simp
qed

text \<open>
  C8 as stated, with the status store as the guard, fails in both directions: in the
  lobby (status waiting) the socket is open and a send is transmitted; after
  \<^verbatim>\<open>opponent_disconnected\<close> (status disconnected) a tap on a hand card transmits
  \<^verbatim>\<open>get_captures\<close>; and after \<^verbatim>\<open>disconnect\<close>, until the close event fires, the status is
  still connected while nothing is transmitted.
\<close>

theorem send_by_status_counterexample:
  "wsStatus (run lobby (initial None)) = Waiting \<and>
   sent (send (GetCaptures ''h7'') (run lobby (initial None))) = [GetCaptures ''h7''] \<and>
   wsStatus (run opponent_left (initial None)) = Disconnected \<and>
   sent (run opponent_left (initial None)) = [GetCaptures ''h7''] \<and>
   wsStatus (run hung_up (initial None)) = Connected \<and>
   sent (send (GetCaptures ''h7'') (run hung_up (initial None))) = []"
  by code_simp

section \<open>The join code\<close>

lemma dispatch_joinCode [simp]: "joinCode (dispatch m s) = joinCode s"
  by (cases m) (simp_all add: handler_defs split: option.splits)

lemma handle_joinCode: "joinCode (handle e s) = joinCode s"
proof (cases e)
  case (SocketReceives i f)
  then show ?thesis by (cases f) (simp_all add: onmessage_def)
qed (simp_all add: handler_defs split: option.splits timer_action.splits)

text \<open>
  C9, as the code has it. No event changes the join code: neither a call of the API of
  \<^verbatim>\<open>ws.js\<close>, nor a socket event, nor any message, nor a timer, nor a tap. A delivered
  \<^verbatim>\<open>game_started\<close> sets the status to connected and the waiting flag to false, and
  leaves the join code as it was.
\<close>

theorem joinCode_never_cleared:
  "joinCode (step e s) = joinCode s \<and>
   (socket_is i OPEN s \<longrightarrow>
      wsStatus (step (SocketReceives i (Parsed (GameStartedMsg opp rnd))) s) = Connected \<and>
      \<not> isWaiting (step (SocketReceives i (Parsed (GameStartedMsg opp rnd))) s) \<and>
      joinCode (step (SocketReceives i (Parsed (GameStartedMsg opp rnd))) s) = joinCode s)"
  by (simp add: step_def handle_joinCode onmessage_def set_selectedCard_def Let_def
      split: option.splits)

text \<open>An instance: the creator of the session, in the lobby, when the game starts.\<close>

theorem joinCode_never_cleared_witness:
  "wsStatus (step (SocketReceives 0 (Parsed (GameStartedMsg (Some ''B'') (Some 1))))
      (run lobby (initial (Some ''K7QX'')))) = Connected \<and>
   joinCode (step (SocketReceives 0 (Parsed (GameStartedMsg (Some ''B'') (Some 1))))
      (run lobby (initial (Some ''K7QX'')))) = Some ''K7QX''"
proof -
  have o: "socket_is 0 OPEN (run lobby (initial (Some ''K7QX'')))" by code_simp
  have j: "joinCode (run lobby (initial (Some ''K7QX''))) = Some ''K7QX''" by code_simp
  from joinCode_never_cleared[of "SocketReceives 0 (Parsed (GameStartedMsg (Some ''B'') (Some 1)))"
      "run lobby (initial (Some ''K7QX''))" 0 "Some ''B''" "Some 1"] o j
  show ?thesis by simp
qed

text \<open>
  C9 as stated fails: the creator's join code is still in the store after the status
  has gone from waiting to connected.
\<close>

theorem joinCode_cleared_counterexample:
  "wsStatus (run lobby (initial (Some ''K7QX''))) = Waiting \<and>
   wsStatus (run (lobby @ [SocketReceives 0 (Parsed (GameStartedMsg (Some ''B'') (Some 1)))])
      (initial (Some ''K7QX''))) = Connected \<and>
   joinCode (run (lobby @ [SocketReceives 0 (Parsed (GameStartedMsg (Some ''B'') (Some 1)))])
      (initial (Some ''K7QX''))) = Some ''K7QX'' \<and>
   joinCode (run (lobby @ [SocketReceives 0 (Parsed (GameStartedMsg (Some ''B'') (Some 1)))])
      (initial (Some ''K7QX''))) \<noteq> None"
  by code_simp

section \<open>The pending ids and the capture options\<close>

lemma flush_pending_ok: "pending_ok s \<Longrightarrow> pending_ok (flush s)"
  by (simp add: pending_ok_def flush_def reactive_clear_def capturableIds_def Let_def)

lemma cleared_pending_ok: "pendingTableIds s = {||} \<Longrightarrow> pending_ok s"
  by (simp add: pending_ok_def)

lemma executePlay_pending_ok: "pending_ok (executePlay cid caps s)"
  by (simp add: pending_ok_def executePlay_def)

lemma cancelSelection_pending_ok: "pending_ok (cancelSelection s)"
  by (simp add: pending_ok_def cancelSelection_def)

lemma handleHandCard_pending_ok: "pending_ok s \<Longrightarrow> pending_ok (handleHandCard c s)"
  by (simp add: handleHandCard_def executePlay_pending_ok cancelSelection_pending_ok)
     (simp add: pending_ok_def sendGetCaptures_def send_def)

lemma toggle_subset:
  "p |\<subseteq>| q \<Longrightarrow> i |\<in>| q \<or> i |\<in>| p \<Longrightarrow> toggle i p |\<subseteq>| q"
  by (auto simp: toggle_def)

lemma handleTableCard_pending_ok: "pending_ok s \<Longrightarrow> pending_ok (handleTableCard c s)"
proof -
  assume ok: "pending_ok s"
  show ?thesis
  proof (cases "handleTableCard c s = s")
    case True
    with ok show ?thesis by simp
  next
    case False
    then obtain sel where sel: "selectedCard s = Some sel" and turn: "isMyTurn s"
      and g: "card_id c |\<in>| capturableIds s \<or> card_id c |\<in>| pendingTableIds s"
      by (auto simp: handleTableCard_def split: option.splits if_splits)
    let ?s1 = "s\<lparr>pendingTableIds := toggle (card_id c) (pendingTableIds s)\<rparr>"
    have s1: "pending_ok ?s1"
      using ok g toggle_subset[of "pendingTableIds s" "capturableIds s" "card_id c"]
      by (simp add: pending_ok_def capturableIds_def)
    show ?thesis
    proof (cases "exactMatch (captureOptions s) (toggle (card_id c) (pendingTableIds s))")
      case None
      with sel turn g have "handleTableCard c s = ?s1"
        by (auto simp: handleTableCard_def Let_def)
      with s1 show ?thesis by simp
    next
      case (Some opt)
      with sel turn g have "handleTableCard c s = executePlay (card_id sel) opt ?s1"
        by (auto simp: handleTableCard_def Let_def)
      then show ?thesis by (simp add: executePlay_pending_ok)
    qed
  qed
qed

lemma dispatch_pending_ok:
  assumes "selection_ok s" and "pending_ok s"
    and "\<forall>opts. m = CapturesMsg opts \<longrightarrow> pendingTableIds s |\<subseteq>| fset_of_list (concat opts)"
  shows "pending_ok (flush (dispatch m s))"
proof -
  have pre: "selection_pre (dispatch m s)"
    using assms(1) by (rule dispatch_selection)
  have clear: "selectedCard (dispatch m s) = None \<Longrightarrow> pending_ok (flush (dispatch m s))"
    using flush_pending_cleared[OF pre] by (simp add: cleared_pending_ok)
  show ?thesis
  proof (cases m)
    case (GameStartedMsg opp rnd)
    show ?thesis
      by (rule clear) (simp add: GameStartedMsg set_selectedCard_def Let_def split: option.splits)
  next
    case (CardsDealtMsg rnd)
    show ?thesis
      by (rule clear) (simp add: CardsDealtMsg set_selectedCard_def Let_def split: option.splits)
  next
    case (RoundOverMsg r)
    show ?thesis
      by (rule clear) (simp add: RoundOverMsg set_selectedCard_def)
  next
    case (StateMsg ns)
    show ?thesis
    proof (cases "is_human_turn ns")
      case False
      show ?thesis
        by (rule clear) (simp add: StateMsg False set_selectedCard_def Let_def)
    next
      case True
      have "pending_ok (dispatch m s)"
        using assms(2)
        by (simp add: StateMsg True pending_ok_def capturableIds_def detect_scopas_eq Let_def
            split: option.splits)
      then show ?thesis by (rule flush_pending_ok)
    qed
  next
    case (CapturesMsg opts)
    with assms(3) have "pending_ok (dispatch m s)"
      by (simp add: pending_ok_def capturableIds_def)
    then show ?thesis by (rule flush_pending_ok)
  qed (use assms(2) in \<open>simp_all add: flush_pending_ok pending_ok_def capturableIds_def
        flush_def reactive_clear_def setTimeout_def Let_def\<close>)
qed

lemma step_pending_ok:
  assumes "selection_ok s" and "pending_ok s"
    and "\<forall>i opts. e = SocketReceives i (Parsed (CapturesMsg opts)) \<longrightarrow>
           pendingTableIds s |\<subseteq>| fset_of_list (concat opts)"
  shows "pending_ok (step e s)"
proof (cases e)
  case (SocketReceives i f)
  show ?thesis
  proof (cases f)
    case Malformed
    with assms(2) show ?thesis
      by (simp add: SocketReceives step_def onmessage_def flush_pending_ok)
         (simp add: pending_ok_def capturableIds_def flush_def reactive_clear_def Let_def)
  next
    case (Parsed m)
    from assms(3) have "\<forall>opts. m = CapturesMsg opts \<longrightarrow>
        pendingTableIds s |\<subseteq>| fset_of_list (concat opts)"
      by (simp add: SocketReceives Parsed)
    from dispatch_pending_ok[OF assms(1,2) this] assms(2) show ?thesis
      by (simp add: SocketReceives Parsed step_def onmessage_def flush_pending_ok)
  qed
next
  case (TapHandCard c)
  with assms(2) show ?thesis
    by (simp add: step_def flush_pending_ok handleHandCard_pending_ok)
next
  case (TapTableCard c)
  with assms(2) show ?thesis
    by (simp add: step_def flush_pending_ok handleTableCard_pending_ok)
next
  case TapCancel
  with assms(2) show ?thesis
    by (simp add: step_def flush_pending_ok cancelSelection_pending_ok)
qed (use assms(2) in \<open>auto simp: step_def pending_ok_def capturableIds_def flush_def
      reactive_clear_def Let_def connect_def disconnect_def onopen_def onclose_def onerror_def
      set_readyState_def fire_def split: option.splits timer_action.splits\<close>)

text \<open>
  C6, as the code has it. The pending ids stay among the ids of the capture options
  (and the selection stays consistent) under every event, be it a call of the API, a
  socket event, a timer, a tap or an inbound message, with one exception: a
  \<^verbatim>\<open>captures\<close> message keeps the inclusion only if its options contain every pending id.
  The operations of the selector, \<^verbatim>\<open>handleHandCard\<close>, \<^verbatim>\<open>handleTableCard\<close>,
  \<^verbatim>\<open>cancelSelection\<close> and \<^verbatim>\<open>executePlay\<close>, keep or establish the inclusion in any state,
  and the initial state has it.
\<close>

theorem pending_subset_preserved:
  assumes "selection_ok s" and "pending_ok s"
    and "\<forall>i opts. e = SocketReceives i (Parsed (CapturesMsg opts)) \<longrightarrow>
           pendingTableIds s |\<subseteq>| fset_of_list (concat opts)"
  shows "pending_ok (step e s) \<and> selection_ok (step e s) \<and>
         pending_ok (handleHandCard c s) \<and> pending_ok (handleTableCard t s) \<and>
         pending_ok (cancelSelection s) \<and> pending_ok (executePlay cid caps s) \<and>
         pending_ok (initial jc) \<and> selection_ok (initial jc)"
  using step_pending_ok[OF assms] step_selection[OF assms(1)] assms(2)
  by (simp add: handleHandCard_pending_ok handleTableCard_pending_ok
      cancelSelection_pending_ok executePlay_pending_ok initial_selection)
     (simp add: pending_ok_def initial_def)

text \<open>
  An instance: with c1 pending for the option c1 + c2, a \<^verbatim>\<open>captures\<close> message whose
  options contain c1, a tap on c2 and a tap on the other hand card.
\<close>

theorem pending_subset_preserved_witness:
  "pending_ok (step (SocketReceives 0 (Parsed (CapturesMsg [[''c1'', ''c2''], [''c3'']])))
      (run partial_pick (initial None))) \<and>
   pending_ok (handleTableCard table_c2 (run partial_pick (initial None))) \<and>
   pending_ok (handleHandCard hand_five (run partial_pick (initial None)))"
proof -
  let ?s = "run partial_pick (initial None)"
  have a: "selection_ok ?s" by code_simp
  have b: "pending_ok ?s" by code_simp
  have p: "pendingTableIds ?s = {|''c1''|}" by code_simp
  have c: "\<forall>i opts. SocketReceives 0 (Parsed (CapturesMsg [[''c1'', ''c2''], [''c3'']])) =
      SocketReceives i (Parsed (CapturesMsg opts)) \<longrightarrow>
      pendingTableIds ?s |\<subseteq>| fset_of_list (concat opts)"
    by (simp add: p)
  from pending_subset_preserved[OF a b c, where c = hand_five and t = table_c2]
  show ?thesis by simp
qed

text \<open>
  C6 as stated fails: \<^verbatim>\<open>_dispatch\<close> replaces the capture options by whatever a
  \<^verbatim>\<open>captures\<close> message carries. With two requests out, c1 is pending from the answer
  to the first when the answer to the second, the option c3, replaces the options.
\<close>

theorem pending_subset_counterexample:
  "pendingTableIds (run stale_answer (initial None)) = {|''c1''|} \<and>
   captureOptions (run stale_answer (initial None)) = [[''c3'']] \<and>
   \<not> pendingTableIds (run stale_answer (initial None)) |\<subseteq>|
       capturableIds (run stale_answer (initial None))"
  by code_simp

end
